theory Spec2Isabelle
  imports Main "HOL-Library.Multiset"
begin

section \<open>Strings\<close>

text \<open>
  Python strings are modelled as \<^typ>\<open>string\<close>. The methods \<^verbatim>\<open>str.upper()\<close> and
  \<^verbatim>\<open>str.lower()\<close> are modelled on the ASCII letters; every other character is left
  as it is. Identifiers of the catalog and the type names the source compares with
  (\<^verbatim>\<open>"CHAR"\<close>, \<^verbatim>\<open>"NVARCHAR"\<close>, ...) are ASCII.
\<close>

definition upper_char :: "char \<Rightarrow> char" where
  "upper_char c =
     (case map_of (zip ''abcdefghijklmnopqrstuvwxyz'' ''ABCDEFGHIJKLMNOPQRSTUVWXYZ'') c of
        None \<Rightarrow> c
      | Some u \<Rightarrow> u)"

definition lower_char :: "char \<Rightarrow> char" where
  "lower_char c =
     (case map_of (zip ''ABCDEFGHIJKLMNOPQRSTUVWXYZ'' ''abcdefghijklmnopqrstuvwxyz'') c of
        None \<Rightarrow> c
      | Some l \<Rightarrow> l)"

definition upper :: "string \<Rightarrow> string" where
  "upper s = map upper_char s"

definition lower :: "string \<Rightarrow> string" where
  "lower s = map lower_char s"

text \<open>\<^verbatim>\<open>sep.join(parts)\<close>.\<close>

fun join :: "string \<Rightarrow> string list \<Rightarrow> string" where
  "join sep [] = []"
| "join sep [p] = p"
| "join sep (p # q # ps) = p @ sep @ join sep (q # ps)"

text \<open>
  The decimal text of a Python \<^verbatim>\<open>int\<close>, as an f-string renders it: the digits of the
  absolute value, most significant first, after a minus sign when the number is negative.
\<close>

definition digit_char :: "nat \<Rightarrow> char" where
  "digit_char d = ''0123456789'' ! d"

fun str_nat :: "nat \<Rightarrow> string" where
  "str_nat n = (if n < 10 then [digit_char n] else str_nat (n div 10) @ [digit_char (n mod 10)])"

declare str_nat.simps [simp del]

definition str_int :: "int \<Rightarrow> string" where
  "str_int i = (if i < 0 then CHR ''-'' # str_nat (nat (- i)) else str_nat (nat i))"

text \<open>
  \<^verbatim>\<open>int(length / 2)\<close>: the true quotient, cut towards zero. The source goes through a
  float, which is exact for every \<^verbatim>\<open>length\<close> of absolute value up to \<open>2 ^ 53\<close>; the
  catalog column \<^verbatim>\<open>sys.columns.max_length\<close> is a 16-bit integer.
\<close>

definition int_half :: "int \<Rightarrow> int" where
  "int_half n = (if 0 \<le> n then n div 2 else - ((- n) div 2))"

definition apostrophe :: string where
  "apostrophe = [CHR 0x27]"

section \<open>Data\<close>

text \<open>
  A row of the catalog query of \<^verbatim>\<open>fetch_ordered_metadata\<close>, with the attributes the
  source reads. The two bit columns and the default definition may be \<^verbatim>\<open>NULL\<close>
  (\<^verbatim>\<open>None\<close> in Python).
\<close>

record row =
  column_name :: string
  data_type :: string
  max_length :: int
  precision :: int
  scale :: int
  row_is_nullable :: "bool option"
  row_is_identity :: "bool option"
  default_definition :: "string option"

text \<open>
  The metadata dictionary of a column, with the keys \<^verbatim>\<open>name\<close>, \<^verbatim>\<open>type\<close>,
  \<^verbatim>\<open>is_nullable\<close>, \<^verbatim>\<open>is_identity\<close> and \<^verbatim>\<open>default\<close> (\<^verbatim>\<open>None\<close> or an expression).
\<close>

record column =
  name :: string
  type :: string
  is_nullable :: bool
  is_identity :: bool
  default :: "string option"

text \<open>
  The dictionary of a requested column, as the docstring of \<^verbatim>\<open>insert_new_columns\<close>
  describes it. The keys read with \<^verbatim>\<open>[...]\<close> are fields; the keys read with
  \<^verbatim>\<open>.get\<close> are optional (\<open>None\<close>: the key is missing, or for \<^verbatim>\<open>default\<close> its value
  is \<^verbatim>\<open>None\<close>).
\<close>

record new_column =
  new_name :: string
  new_type :: string
  nullable :: "bool option"
  identity :: "bool option"
  new_default :: "string option"
  position :: string
  anchor :: string

text \<open>The exceptions the source raises.\<close>

datatype error = ValueError string | StopIteration

section \<open>Reading the metadata\<close>

text \<open>\<^verbatim>\<open>bool(x)\<close> of a bit column: \<^verbatim>\<open>None\<close> is false.\<close>

definition py_bool :: "bool option \<Rightarrow> bool" where
  "py_bool b = (case b of None \<Rightarrow> False | Some v \<Rightarrow> v)"

text \<open>The block "Build full type string" of the loop body.\<close>

definition type_str :: "row \<Rightarrow> string" where
  "type_str r =
     (let dt = upper (data_type r) in
      if dt \<in> set [''CHAR'', ''NCHAR'', ''VARCHAR'', ''NVARCHAR'', ''BINARY'', ''VARBINARY''] then
        (if max_length r = - 1 then dt @ ''(MAX)''
         else
           (let length0 = max_length r;
                length1 = (if dt \<in> set [''NCHAR'', ''NVARCHAR''] then int_half length0 else length0)
            in dt @ ''('' @ str_int length1 @ '')''))
      else if dt \<in> set [''DECIMAL'', ''NUMERIC''] then
        dt @ ''('' @ str_int (precision r) @ '','' @ str_int (scale r) @ '')''
      else if dt \<in> set [''DATETIME2'', ''TIME'', ''DATETIMEOFFSET''] then
        dt @ ''('' @ str_int (scale r) @ '')''
      else dt)"

definition row_to_column :: "row \<Rightarrow> column" where
  "row_to_column r =
     \<lparr>name = column_name r,
      type = type_str r,
      is_nullable = py_bool (row_is_nullable r),
      is_identity = py_bool (row_is_identity r),
      default = default_definition r\<rparr>"

text \<open>
  \<^verbatim>\<open>fetch_ordered_metadata\<close>, applied to the rows the catalog query yields for the
  schema and the table, in the order of the query (\<^verbatim>\<open>ORDER BY c.column_id\<close>). The loop
  appends one dictionary for each row; the function has no \<^verbatim>\<open>raise\<close>.
\<close>

fun fetch_loop :: "column list \<Rightarrow> row list \<Rightarrow> column list" where
  "fetch_loop cols [] = cols"
| "fetch_loop cols (r # rs) = fetch_loop (cols @ [row_to_column r]) rs"

definition fetch_ordered_metadata :: "row list \<Rightarrow> column list" where
  "fetch_ordered_metadata rows = fetch_loop [] rows"

text \<open>
  The type formatter as the specification words it: a type name belongs to one of four
  families, and the family decides the parameters that are rendered.
\<close>

datatype type_family = CharBinary | ExactNumeric | Temporal | OtherType

definition family_of :: "string \<Rightarrow> type_family" where
  "family_of typeName =
     (if upper typeName \<in> {''CHAR'', ''NCHAR'', ''VARCHAR'', ''NVARCHAR'', ''BINARY'', ''VARBINARY''}
        then CharBinary
      else if upper typeName \<in> {''DECIMAL'', ''NUMERIC''} then ExactNumeric
      else if upper typeName \<in> {''DATETIME2'', ''TIME'', ''DATETIMEOFFSET''} then Temporal
      else OtherType)"

definition is_unicode :: "string \<Rightarrow> bool" where
  "is_unicode typeName \<longleftrightarrow> upper typeName = ''NCHAR'' \<or> upper typeName = ''NVARCHAR''"

definition format_spec :: "string \<Rightarrow> int \<Rightarrow> int \<Rightarrow> int \<Rightarrow> string" where
  "format_spec typeName maxLength prec sc =
     (case family_of typeName of
        CharBinary \<Rightarrow>
          upper typeName @ ''('' @
            (if maxLength = - 1 then ''MAX''
             else str_int (if is_unicode typeName then int_half maxLength else maxLength)) @ '')''
      | ExactNumeric \<Rightarrow> upper typeName @ ''('' @ str_int prec @ '','' @ str_int sc @ '')''
      | Temporal \<Rightarrow> upper typeName @ ''('' @ str_int sc @ '')''
      | OtherType \<Rightarrow> upper typeName)"

section \<open>Column definitions\<close>

text \<open>
  The truth value of \<^verbatim>\<open>col.get("default")\<close>: \<^verbatim>\<open>None\<close> and the empty string are false.
\<close>

definition truthy :: "string option \<Rightarrow> bool" where
  "truthy d = (case d of None \<Rightarrow> False | Some e \<Rightarrow> e \<noteq> [])"

definition build_col_def :: "column \<Rightarrow> string" where
  "build_col_def col =
     (let nullable_kw = (if is_nullable col then ''NULL'' else ''NOT NULL'');
          identity_kw = (if is_identity col then '' IDENTITY(1,1)'' else []);
          default_kw = (if truthy (default col) then '' DEFAULT '' @ the (default col) else [])
      in ''['' @ name col @ ''] '' @ type col @ identity_kw @ default_kw @ '' '' @ nullable_kw)"

section \<open>Planning the column order\<close>

text \<open>The dictionary \<^verbatim>\<open>new_meta\<close> built for a requested column.\<close>

definition new_meta :: "new_column \<Rightarrow> column" where
  "new_meta new_col =
     \<lparr>name = new_name new_col,
      type = new_type new_col,
      is_nullable = (case nullable new_col of None \<Rightarrow> True | Some b \<Rightarrow> b),
      is_identity = (case identity new_col of None \<Rightarrow> False | Some b \<Rightarrow> b),
      default = new_default new_col\<rparr>"

text \<open>
  \<^verbatim>\<open>next((i for i, c in enumerate(ordered) if c["name"].lower() == anchor.lower()), None)\<close>:
  the first index whose column matches the anchor.
\<close>

fun anchor_index :: "column list \<Rightarrow> string \<Rightarrow> nat option" where
  "anchor_index [] a = None"
| "anchor_index (c # cs) a =
     (if lower (name c) = lower a then Some 0 else map_option Suc (anchor_index cs a))"

text \<open>
  \<^verbatim>\<open>ordered.insert(i, x)\<close> for an index \<open>i \<ge> 0\<close>: the elements from \<open>i\<close> on move one
  place to the right; an index beyond the end appends.
\<close>

definition list_insert :: "nat \<Rightarrow> 'a \<Rightarrow> 'a list \<Rightarrow> 'a list" where
  "list_insert i x xs = take i xs @ x # drop i xs"

definition position_error :: error where
  "position_error = ValueError (''position must be 'before' or 'after'' @ apostrophe)"

definition anchor_error :: "string \<Rightarrow> error" where
  "anchor_error a = ValueError (''Anchor column '' @ apostrophe @ a @ apostrophe @ '' not found'')"

text \<open>The body of the loop of \<^verbatim>\<open>insert_new_columns\<close>, on the working list.\<close>

definition insert_step :: "column list \<Rightarrow> new_column \<Rightarrow> error + column list" where
  "insert_step ordered new_col =
     (let a = anchor new_col; pos = position new_col in
      if pos \<notin> set [''before'', ''after''] then Inl position_error
      else
        (case anchor_index ordered a of
           None \<Rightarrow> Inl (anchor_error a)
         | Some idx \<Rightarrow>
             (let insert_idx = (if pos = ''after'' then idx + 1 else idx)
              in Inr (list_insert insert_idx (new_meta new_col) ordered))))"

fun insert_loop :: "column list \<Rightarrow> new_column list \<Rightarrow> error + column list" where
  "insert_loop ordered [] = Inr ordered"
| "insert_loop ordered (new_col # rest) =
     (case insert_step ordered new_col of
        Inl e \<Rightarrow> Inl e
      | Inr ordered' \<Rightarrow> insert_loop ordered' rest)"

text \<open>
  \<^verbatim>\<open>insert_new_columns\<close> as a function of the contents of its arguments: the working
  list starts as a copy of \<^verbatim>\<open>existing_cols\<close>.
\<close>

definition insert_new_columns :: "column list \<Rightarrow> new_column list \<Rightarrow> error + column list" where
  "insert_new_columns existing_cols new_columns = insert_loop existing_cols new_columns"

subsection \<open>The same function on a store of list objects\<close>

text \<open>
  Python lists are objects that \<^verbatim>\<open>insert\<close> changes in place. A store maps the address
  of a list object to its contents; addresses below \<open>next_free\<close> are allocated. The
  dictionaries in the lists are never written by \<^verbatim>\<open>insert_new_columns\<close>, so they stay
  values.
\<close>

record store =
  list_at :: "nat \<Rightarrow> column list"
  next_free :: nat

text \<open>\<^verbatim>\<open>xs.copy()\<close>: a new list object with the same elements.\<close>

definition list_copy :: "nat \<Rightarrow> store \<Rightarrow> nat \<times> store" where
  "list_copy a s =
     (next_free s, s\<lparr>list_at := (list_at s)(next_free s := list_at s a), next_free := Suc (next_free s)\<rparr>)"

text \<open>\<^verbatim>\<open>xs.insert(i, x)\<close> on the list object at an address.\<close>

definition store_insert :: "nat \<Rightarrow> nat \<Rightarrow> column \<Rightarrow> store \<Rightarrow> store" where
  "store_insert a i x s = s\<lparr>list_at := (list_at s)(a := list_insert i x (list_at s a))\<rparr>"

fun insert_loop_st :: "nat \<Rightarrow> new_column list \<Rightarrow> store \<Rightarrow> (error + nat) \<times> store" where
  "insert_loop_st ordered [] s = (Inr ordered, s)"
| "insert_loop_st ordered (new_col # rest) s =
     (let a = anchor new_col; pos = position new_col in
      if pos \<notin> set [''before'', ''after''] then (Inl position_error, s)
      else
        (case anchor_index (list_at s ordered) a of
           None \<Rightarrow> (Inl (anchor_error a), s)
         | Some idx \<Rightarrow>
             (let insert_idx = (if pos = ''after'' then idx + 1 else idx)
              in insert_loop_st ordered rest (store_insert ordered insert_idx (new_meta new_col) s))))"

text \<open>
  \<^verbatim>\<open>insert_new_columns\<close> on the store: \<^verbatim>\<open>existing_cols\<close> is the address of the caller's
  list; the result is the address of the list returned, or the exception raised, and the
  store after the call.
\<close>

definition insert_new_columns_st :: "nat \<Rightarrow> new_column list \<Rightarrow> store \<Rightarrow> (error + nat) \<times> store" where
  "insert_new_columns_st existing_cols new_columns s =
     (case list_copy existing_cols s of (ordered, s') \<Rightarrow> insert_loop_st ordered new_columns s')"

subsection \<open>Well-formed requests\<close>

text \<open>
  Every anchor names a column that is in the working list when its request is processed:
  a column of the list the planning starts from, or a column requested earlier.
\<close>

fun anchors_present :: "string list \<Rightarrow> new_column list \<Rightarrow> bool" where
  "anchors_present names [] = True"
| "anchors_present names (new_col # rest) =
     (lower (anchor new_col) \<in> set (map lower names) \<and>
      anchors_present (names @ [new_name new_col]) rest)"

definition positions_valid :: "new_column list \<Rightarrow> bool" where
  "positions_valid new_columns =
     list_all (\<lambda>n. position n = ''before'' \<or> position n = ''after'') new_columns"

section \<open>The rebuild\<close>

definition newline :: string where
  "newline = [CHR 0x0A]"

text \<open>Step 3: the \<^verbatim>\<open>CREATE TABLE\<close> statement for the temporary table.\<close>

definition create_sql :: "string \<Rightarrow> column list \<Rightarrow> string" where
  "create_sql full_tmp_table new_ordered_cols =
     ''CREATE TABLE '' @ full_tmp_table @ '' ('' @ newline @ ''    '' @
       join ('','' @ newline @ ''    '') (map build_col_def new_ordered_cols) @
       newline @ '');''"

text \<open>
  Step 4: the expression of the \<^verbatim>\<open>SELECT\<close> list for one column of the new order.
  \<^verbatim>\<open>existing_names\<close> is the set of the lower-case names of the existing columns;
  \<^verbatim>\<open>next\<close> on a generator without a match raises \<^verbatim>\<open>StopIteration\<close>.
\<close>

definition select_expr :: "column list \<Rightarrow> new_column list \<Rightarrow> column \<Rightarrow> error + string" where
  "select_expr existing_cols new_columns c =
     (let existing_names = set (map (\<lambda>e. lower (name e)) existing_cols);
          col_name = name c
      in if lower col_name \<in> existing_names then Inr (''['' @ col_name @ '']'')
         else
           (case find (\<lambda>n. lower (new_name n) = lower col_name) new_columns of
              None \<Rightarrow> Inl StopIteration
            | Some spec \<Rightarrow>
                (case new_default spec of
                   Some d \<Rightarrow> Inr (d @ '' AS ['' @ col_name @ '']'')
                 | None \<Rightarrow> Inr (''NULL AS ['' @ col_name @ '']''))))"

fun select_loop ::
  "column list \<Rightarrow> new_column list \<Rightarrow> string list \<Rightarrow> column list \<Rightarrow> error + string list" where
  "select_loop existing_cols new_columns select_exprs [] = Inr select_exprs"
| "select_loop existing_cols new_columns select_exprs (c # cs) =
     (case select_expr existing_cols new_columns c of
        Inl e \<Rightarrow> Inl e
      | Inr x \<Rightarrow> select_loop existing_cols new_columns (select_exprs @ [x]) cs)"

definition select_exprs_of :: "column list \<Rightarrow> new_column list \<Rightarrow> column list \<Rightarrow> error + string list" where
  "select_exprs_of existing_cols new_columns new_ordered_cols =
     select_loop existing_cols new_columns [] new_ordered_cols"

text \<open>The three statements the copy batch is made of.\<close>

definition identity_insert_on :: "string \<Rightarrow> string" where
  "identity_insert_on full_tmp_table = ''SET IDENTITY_INSERT '' @ full_tmp_table @ '' ON;''"

definition identity_insert_off :: "string \<Rightarrow> string" where
  "identity_insert_off full_tmp_table = ''SET IDENTITY_INSERT '' @ full_tmp_table @ '' OFF;''"

definition insert_select :: "string \<Rightarrow> string \<Rightarrow> column list \<Rightarrow> string list \<Rightarrow> string" where
  "insert_select full_table full_tmp_table new_ordered_cols select_exprs =
     (let insert_cols = map (\<lambda>c. ''['' @ name c @ '']'') new_ordered_cols
      in ''INSERT INTO '' @ full_tmp_table @ '' ('' @ join '', '' insert_cols @ '')'' @ newline @
         ''SELECT '' @ join '', '' select_exprs @ newline @
         ''FROM '' @ full_table @ '' WITH (HOLDLOCK TABLOCKX);'')"

definition insert_batch_parts ::
  "string \<Rightarrow> string \<Rightarrow> column list \<Rightarrow> string list \<Rightarrow> string list" where
  "insert_batch_parts full_table full_tmp_table new_ordered_cols select_exprs =
     (let has_identity = list_ex is_identity new_ordered_cols;
          parts0 = [];
          parts1 = (if has_identity then parts0 @ [identity_insert_on full_tmp_table] else parts0);
          parts2 = parts1 @ [insert_select full_table full_tmp_table new_ordered_cols select_exprs];
          parts3 = (if has_identity then parts2 @ [identity_insert_off full_tmp_table] else parts2)
      in parts3)"

definition insert_sql :: "string \<Rightarrow> string \<Rightarrow> column list \<Rightarrow> string list \<Rightarrow> string" where
  "insert_sql full_table full_tmp_table new_ordered_cols select_exprs =
     join newline (insert_batch_parts full_table full_tmp_table new_ordered_cols select_exprs)"

text \<open>
  \<^verbatim>\<open>rebuild_with_inferred_and_inserted_columns\<close>. The connection parameters are left
  out; \<open>rows\<close> is what the catalog query yields for the schema and the table, and
  \<open>executed\<close> is the list of the generated statements the session has executed, oldest
  first. A statement that the database rejects is outside the model: every
  \<^verbatim>\<open>cur.execute\<close> of step 5 is taken to succeed. The result is the exception raised, or
  \<open>Inr ()\<close> after the commit, and the statements executed.
\<close>

definition rebuild_with_inferred_and_inserted_columns ::
  "string \<Rightarrow> string \<Rightarrow> new_column list \<Rightarrow> string \<Rightarrow> row list \<Rightarrow> string list
     \<Rightarrow> (error + unit) \<times> string list" where
  "rebuild_with_inferred_and_inserted_columns schema table new_columns tmp_suffix rows executed =
     (let full_table = ''['' @ schema @ ''].['' @ table @ '']'';
          tmp_table_name = table @ tmp_suffix;
          full_tmp_table = ''['' @ schema @ ''].['' @ tmp_table_name @ '']'';
          existing_cols = fetch_ordered_metadata rows
      in case insert_new_columns existing_cols new_columns of
           Inl e \<Rightarrow> (Inl e, executed)
         | Inr new_ordered_cols \<Rightarrow>
             (case select_exprs_of existing_cols new_columns new_ordered_cols of
                Inl e \<Rightarrow> (Inl e, executed)
              | Inr select_exprs \<Rightarrow>
                  (Inr (),
                   executed @
                   [create_sql full_tmp_table new_ordered_cols,
                    insert_sql full_table full_tmp_table new_ordered_cols select_exprs,
                    ''DROP TABLE '' @ full_table @ '';'',
                    ''EXEC sp_rename N'' @ apostrophe @ full_tmp_table @ apostrophe @ '', N'' @
                      apostrophe @ table @ apostrophe @ '', '' @ apostrophe @ ''OBJECT'' @
                      apostrophe @ '';''])))"

text \<open>
  The expression the specification gives a column of origin \<open>INSERTED\<close>: the default of
  its request with the column name as alias, or \<open>NULL\<close> with that alias.
\<close>

definition inserted_expr :: "new_column \<Rightarrow> string" where
  "inserted_expr n =
     (case new_default n of
        Some d \<Rightarrow> d @ '' AS ['' @ new_name n @ '']''
      | None \<Rightarrow> ''NULL AS ['' @ new_name n @ '']'')"

section \<open>Example data\<close>

definition example_col :: "string \<Rightarrow> column" where
  "example_col n = \<lparr>name = n, type = ''INT'', is_nullable = True, is_identity = False, default = None\<rparr>"

definition example_request :: "string \<Rightarrow> string \<Rightarrow> string \<Rightarrow> new_column" where
  "example_request n pos a =
     \<lparr>new_name = n, new_type = ''INT'', nullable = None, identity = None, new_default = None,
      position = pos, anchor = a\<rparr>"

definition example_row :: "string \<Rightarrow> row" where
  "example_row n =
     \<lparr>column_name = n, data_type = ''int'', max_length = 4, precision = 10, scale = 0,
      row_is_nullable = Some False, row_is_identity = Some False, default_definition = None\<rparr>"

definition example_store :: store where
  "example_store =
     \<lparr>list_at = (\<lambda>a. [])(0 := [example_col ''X'', example_col ''Y'']), next_free = 1\<rparr>"

section \<open>Evaluation of the string functions\<close>

lemma str_nat_small: "n < 10 \<Longrightarrow> str_nat n = [digit_char n]"
  by (simp add: str_nat.simps [of n])

lemma str_nat_large: "10 \<le> n \<Longrightarrow> str_nat n = str_nat (n div 10) @ [digit_char (n mod 10)]"
  by (simp add: str_nat.simps [of n])

lemma fetch_loop_map: "fetch_loop cols rows = cols @ map row_to_column rows"
  by (induction rows arbitrary: cols) simp_all

lemma fetch_ordered_metadata_map: "fetch_ordered_metadata rows = map row_to_column rows"
  by (simp add: fetch_ordered_metadata_def fetch_loop_map)

section \<open>The type formatter\<close>

text \<open>
  C5. For every catalog row, the type string that \<^verbatim>\<open>fetch_ordered_metadata\<close> builds is
  the one the formatter of the specification gives for the row's type name, maximal
  length, precision and scale: the type name is matched whatever its case and rendered
  in upper case; a character or binary type is \<open>TYPE(MAX)\<close> for the length \<open>-1\<close> and
  \<open>TYPE(length)\<close> otherwise, the length halved for \<open>NCHAR\<close> and \<open>NVARCHAR\<close> only;
  \<open>DECIMAL\<close> and \<open>NUMERIC\<close> are \<open>TYPE(precision,scale)\<close>; \<open>DATETIME2\<close>, \<open>TIME\<close> and
  \<open>DATETIMEOFFSET\<close> are \<open>TYPE(scale)\<close>; every other type is its bare name in upper case.
\<close>

theorem type_str_format_spec:
  "type_str r = format_spec (data_type r) (max_length r) (precision r) (scale r)"
  by (simp add: type_str_def format_spec_def family_of_def is_unicode_def Let_def)

theorem type_str_format_spec_witness:
  "type_str \<lparr>column_name = ''Title'', data_type = ''nvarchar'', max_length = 100, precision = 0,
      scale = 0, row_is_nullable = Some True, row_is_identity = Some False,
      default_definition = None\<rparr> = ''NVARCHAR(50)'' \<and>
   type_str \<lparr>column_name = ''Body'', data_type = ''VARCHAR'', max_length = - 1, precision = 0,
      scale = 0, row_is_nullable = Some True, row_is_identity = Some False,
      default_definition = None\<rparr> = ''VARCHAR(MAX)'' \<and>
   type_str \<lparr>column_name = ''Code'', data_type = ''VARCHAR'', max_length = 50, precision = 0,
      scale = 0, row_is_nullable = Some True, row_is_identity = Some False,
      default_definition = None\<rparr> = ''VARCHAR(50)'' \<and>
   type_str \<lparr>column_name = ''Price'', data_type = ''decimal'', max_length = 9, precision = 18,
      scale = 2, row_is_nullable = Some False, row_is_identity = Some False,
      default_definition = None\<rparr> = ''DECIMAL(18,2)'' \<and>
   type_str \<lparr>column_name = ''At'', data_type = ''datetime2'', max_length = 8, precision = 27,
      scale = 7, row_is_nullable = Some False, row_is_identity = Some False,
      default_definition = None\<rparr> = ''DATETIME2(7)'' \<and>
   type_str \<lparr>column_name = ''Id'', data_type = ''int'', max_length = 4, precision = 10,
      scale = 0, row_is_nullable = Some False, row_is_identity = Some True,
      default_definition = None\<rparr> = ''INT''"
  by (simp add: type_str_format_spec format_spec_def family_of_def is_unicode_def upper_def
      upper_char_def str_int_def int_half_def str_nat_small str_nat_large digit_char_def)


section \<open>The planner\<close>

lemma name_new_meta [simp]: "name (new_meta n) = new_name n"
  by (simp add: new_meta_def)

lemma anchor_index_None_iff:
  "anchor_index cs a = None \<longleftrightarrow> lower a \<notin> (\<lambda>c. lower (name c)) ` set cs"
  by (induction cs) auto

lemma anchor_index_Some:
  "anchor_index cs a = Some i \<Longrightarrow>
     i < length cs \<and> lower (name (cs ! i)) = lower a \<and> (\<forall>j<i. lower (name (cs ! j)) \<noteq> lower a)"
proof (induction cs arbitrary: i)
  case Nil
  then show ?case by simp
next
  case (Cons c cs)
  show ?case
  proof (cases "lower (name c) = lower a")
    case True
    with Cons.prems show ?thesis by simp
  next
    case False
    with Cons.prems obtain k where k: "anchor_index cs a = Some k" "i = Suc k"
      by auto
    from Cons.IH [OF k(1)] False k(2) show ?thesis
      by (auto simp: nth_Cons split: nat.splits)
  qed
qed

lemma anchor_index_first_match:
  "\<forall>c\<in>set xs. lower (name c) \<noteq> lower a \<Longrightarrow> lower (name c) = lower a \<Longrightarrow>
     anchor_index (xs @ c # ys) a = Some (length xs)"
  by (induction xs) simp_all

lemma mset_list_insert: "mset (list_insert i x xs) = add_mset x (mset xs)"
proof -
  have "mset (take i xs) + mset (drop i xs) = mset (take i xs @ drop i xs)"
    by (simp only: mset_append)
  then have "mset (take i xs) + mset (drop i xs) = mset xs"
    by (simp only: append_take_drop_id)
  then show ?thesis
    by (simp add: list_insert_def)
qed

lemma length_list_insert: "length (list_insert i x xs) = Suc (length xs)"
  by (simp add: list_insert_def)

lemma insert_step_found:
  "position n = ''before'' \<or> position n = ''after'' \<Longrightarrow> anchor_index ordered (anchor n) = Some i \<Longrightarrow>
     insert_step ordered n =
       Inr (list_insert (if position n = ''after'' then Suc i else i) (new_meta n) ordered)"
  by (auto simp: insert_step_def Let_def)

lemma insert_step_Inr:
  "insert_step ordered n = Inr r \<Longrightarrow>
     (position n = ''before'' \<or> position n = ''after'') \<and>
     (\<exists>i. anchor_index ordered (anchor n) = Some i \<and>
          r = list_insert (if position n = ''after'' then Suc i else i) (new_meta n) ordered)"
  by (auto simp: insert_step_def Let_def split: if_splits option.splits)

lemma insert_step_Inl:
  "insert_step ordered n = Inl e \<Longrightarrow> e = position_error \<or> e = anchor_error (anchor n)"
  by (auto simp: insert_step_def Let_def split: if_splits option.splits)

lemma insert_step_mset:
  "insert_step ordered n = Inr r \<Longrightarrow> mset r = add_mset (new_meta n) (mset ordered)"
  by (auto dest!: insert_step_Inr simp: mset_list_insert)

lemma insert_loop_mset:
  "insert_loop ordered ns = Inr r \<Longrightarrow> mset r = mset ordered + mset (map new_meta ns)"
proof (induction ns arbitrary: ordered)
  case Nil
  then show ?case by simp
next
  case (Cons n ns)
  from Cons.prems obtain w where w: "insert_step ordered n = Inr w" "insert_loop w ns = Inr r"
    by (auto split: sum.splits)
  from Cons.IH [OF w(2)] insert_step_mset [OF w(1)] show ?case
    by simp
qed

lemma insert_loop_Inl:
  "insert_loop ordered ns = Inl e \<Longrightarrow>
     e = position_error \<or> (\<exists>n\<in>set ns. e = anchor_error (anchor n))"
proof (induction ns arbitrary: ordered)
  case Nil
  then show ?case by simp
next
  case (Cons n ns)
  show ?case
  proof (cases "insert_step ordered n")
    case (Inl e')
    with Cons.prems have "e' = e" by simp
    with insert_step_Inl [OF Inl] show ?thesis by auto
  next
    case (Inr w)
    with Cons.prems have "insert_loop w ns = Inl e" by simp
    from Cons.IH [OF this] show ?thesis by auto
  qed
qed

lemma insert_loop_returns:
  "anchors_present names ns \<Longrightarrow> positions_valid ns \<Longrightarrow>
   set (map lower names) = (\<lambda>c. lower (name c)) ` set ordered \<Longrightarrow>
     \<exists>r. insert_loop ordered ns = Inr r"
proof (induction ns arbitrary: names ordered)
  case Nil
  then show ?case by simp
next
  case (Cons n ns)
  from Cons.prems have pos: "position n = ''before'' \<or> position n = ''after''"
    and rest: "positions_valid ns" "anchors_present (names @ [new_name n]) ns"
    and anc: "lower (anchor n) \<in> (\<lambda>c. lower (name c)) ` set ordered"
    by (auto simp: positions_valid_def)
  from anc obtain i where i: "anchor_index ordered (anchor n) = Some i"
    using anchor_index_None_iff [of ordered "anchor n"] by (cases "anchor_index ordered (anchor n)") auto
  define w where "w = list_insert (if position n = ''after'' then Suc i else i) (new_meta n) ordered"
  have step: "insert_step ordered n = Inr w"
    using insert_step_found [OF pos i] by (simp add: w_def)
  have "set_mset (mset w) = set_mset (add_mset (new_meta n) (mset ordered))"
    by (simp only: w_def mset_list_insert)
  then have "set w = insert (new_meta n) (set ordered)"
    by simp
  with Cons.prems(3) have "set (map lower (names @ [new_name n])) = (\<lambda>c. lower (name c)) ` set w"
    by auto
  from Cons.IH [OF rest(2) rest(1) this] step show ?case
    by simp
qed

lemma insert_loop_snoc:
  "insert_loop ordered (ns @ [n]) =
     (case insert_loop ordered ns of Inl e \<Rightarrow> Inl e | Inr w \<Rightarrow> insert_step w n)"
  by (induction ns arbitrary: ordered) (auto split: sum.splits)


lemma new_meta_example_request: "new_meta (example_request n pos a) = example_col n"
  by (simp add: new_meta_def example_request_def example_col_def)

lemmas example_simps =
  example_col_def example_request_def new_meta_def insert_new_columns_def insert_step_def
  list_insert_def lower_def lower_char_def positions_valid_def Let_def

text \<open>
  C1, as amended. When every anchor names a column that is in the working list at the
  time its request is processed and every position is \<open>before\<close> or \<open>after\<close>,
  \<^verbatim>\<open>insert_new_columns\<close> returns a list of length \<open>len(L) + len(I)\<close> whose names are,
  with their multiplicities, the names of \<open>L\<close> and the requested names. So each of these
  names is in the result exactly once when the names of \<open>L\<close> and the requested names are
  pairwise distinct; the function itself does not check that they are.
\<close>

theorem insert_new_columns_length_names:
  assumes "anchors_present (map name L) I" and "positions_valid I"
  shows "\<exists>R. insert_new_columns L I = Inr R \<and> length R = length L + length I \<and>
           mset (map name R) = mset (map name L) + mset (map new_name I) \<and>
           (distinct (map name L @ map new_name I) \<longrightarrow>
              (\<forall>x\<in>set (map name L @ map new_name I). count_list (map name R) x = 1))"
proof -
  have "set (map lower (map name L)) = (\<lambda>c. lower (name c)) ` set L"
    by (simp add: image_image)
  from insert_loop_returns [OF assms this] obtain R where R: "insert_loop L I = Inr R"
    by blast
  have m: "mset R = mset L + mset (map new_meta I)"
    by (rule insert_loop_mset [OF R])
  from arg_cong [OF m, of size] have len: "length R = length L + length I"
    by simp
  have nm: "map name (map new_meta I) = map new_name I"
    by simp
  have "mset (map name R) = image_mset name (mset L + mset (map new_meta I))"
    by (simp add: m)
  also have "\<dots> = mset (map name L) + mset (map name (map new_meta I))"
    by (simp only: image_mset_union mset_map)
  finally have names: "mset (map name R) = mset (map name L) + mset (map new_name I)"
    by (simp only: nm)
  have once: "count_list (map name R) x = 1"
    if d: "distinct (map name L @ map new_name I)" and x: "x \<in> set (map name L @ map new_name I)" for x
  proof -
    have "count_list (map name R) x = count (mset (map name R)) x"
      by (simp only: count_mset)
    also have "\<dots> = count (mset (map name L @ map new_name I)) x"
      by (simp only: names mset_append)
    also have "\<dots> = 1"
      using d x by (simp only: distinct_count_atmost_1 if_True)
    finally show ?thesis .
  qed
  from R len names once show ?thesis
    unfolding insert_new_columns_def by blast
qed

theorem insert_new_columns_length_names_witness:
  "anchors_present (map name [example_col ''Id'', example_col ''Name''])
     [example_request ''CreatedAt'' ''after'' ''id'', example_request ''UpdatedAt'' ''before'' ''NAME''] \<and>
   positions_valid
     [example_request ''CreatedAt'' ''after'' ''id'', example_request ''UpdatedAt'' ''before'' ''NAME''] \<and>
   (\<exists>R. insert_new_columns [example_col ''Id'', example_col ''Name'']
          [example_request ''CreatedAt'' ''after'' ''id'',
           example_request ''UpdatedAt'' ''before'' ''NAME''] = Inr R \<and>
        length R = 4 \<and> count_list (map name R) ''CreatedAt'' = 1 \<and>
        count_list (map name R) ''Name'' = 1)"
proof -
  let ?L = "[example_col ''Id'', example_col ''Name'']"
  let ?I = "[example_request ''CreatedAt'' ''after'' ''id'',
             example_request ''UpdatedAt'' ''before'' ''NAME'']"
  have a: "anchors_present (map name ?L) ?I"
    by (simp add: example_simps)
  have p: "positions_valid ?I"
    by (simp add: example_simps)
  have d: "distinct (map name ?L @ map new_name ?I)"
    by (simp add: example_simps)
  from insert_new_columns_length_names [OF a p] obtain R where
    R: "insert_new_columns ?L ?I = Inr R" "length R = length ?L + length ?I"
      "distinct (map name ?L @ map new_name ?I) \<longrightarrow>
         (\<forall>x\<in>set (map name ?L @ map new_name ?I). count_list (map name R) x = 1)"
    by blast
  from R(3) d have "\<forall>x\<in>set (map name ?L @ map new_name ?I). count_list (map name R) x = 1"
    by blast
  then have "count_list (map name R) ''CreatedAt'' = 1" "count_list (map name R) ''Name'' = 1"
    by (simp_all add: example_simps)
  with a p R(1,2) show ?thesis
    by auto
qed

text \<open>
  The claim C1 as it is worded fails: a requested name that is already a name of the list
  is inserted all the same, and the name is in the result twice.
\<close>

theorem insert_new_columns_name_twice:
  "anchors_present (map name [example_col ''Id'', example_col ''Name''])
     [example_request ''Name'' ''before'' ''Id''] \<and>
   positions_valid [example_request ''Name'' ''before'' ''Id''] \<and>
   insert_new_columns [example_col ''Id'', example_col ''Name'']
     [example_request ''Name'' ''before'' ''Id''] =
     Inr [example_col ''Name'', example_col ''Id'', example_col ''Name''] \<and>
   count_list (map name [example_col ''Name'', example_col ''Id'', example_col ''Name''])
     ''Name'' = 2"
  by (simp add: example_simps)

text \<open>
  C2, as amended. \<^verbatim>\<open>insert_new_columns\<close> processes the requests one after the other:
  the result for \<open>I\<close> followed by one more request is the step of that request on the
  result for \<open>I\<close>. A step with a valid position whose anchor is found at index \<open>i\<close>, the
  first index of the working list whose name matches the anchor whatever the case, puts
  the new descriptor at \<open>i\<close> for \<open>before\<close> and at \<open>i + 1\<close> for \<open>after\<close>, the later
  elements moving one place to the right. For the requests \<open>a\<close> after \<open>x\<close> and \<open>b\<close> after
  \<open>a\<close> (the anchor of \<open>b\<close> matches the name of \<open>a\<close>), where \<open>x\<close> is found at index \<open>k\<close> of \<open>L\<close> and no column of \<open>L\<close> matches the name of
  \<open>a\<close>, the result is \<open>L\<close> with \<open>a\<close> and then \<open>b\<close> put right after index \<open>k\<close>.
\<close>

theorem insert_new_columns_sequential:
  "insert_new_columns L (I @ [n]) =
     (case insert_new_columns L I of Inl e \<Rightarrow> Inl e | Inr W \<Rightarrow> insert_step W n) \<and>
   ((position m = ''before'' \<or> position m = ''after'') \<and> anchor_index W (anchor m) = Some i \<longrightarrow>
      i < length W \<and> lower (name (W ! i)) = lower (anchor m) \<and>
      (\<forall>j<i. lower (name (W ! j)) \<noteq> lower (anchor m)) \<and>
      insert_step W m =
        Inr (take (if position m = ''after'' then i + 1 else i) W @ new_meta m #
             drop (if position m = ''after'' then i + 1 else i) W)) \<and>
   (anchor_index L (anchor a) = Some k \<and> position a = ''after'' \<and>
    lower (anchor b) = lower (new_name a) \<and> position b = ''after'' \<and>
    lower (new_name a) \<notin> (\<lambda>c. lower (name c)) ` set L \<longrightarrow>
      insert_new_columns L [a, b] =
        Inr (take (k + 1) L @ new_meta a # new_meta b # drop (k + 1) L))"
proof (intro conjI impI)
  show "insert_new_columns L (I @ [n]) =
     (case insert_new_columns L I of Inl e \<Rightarrow> Inl e | Inr W \<Rightarrow> insert_step W n)"
    by (simp only: insert_new_columns_def insert_loop_snoc)
next
  assume h: "(position m = ''before'' \<or> position m = ''after'') \<and>
    anchor_index W (anchor m) = Some i"
  from anchor_index_Some [of W "anchor m" i] h
  show "i < length W" and "lower (name (W ! i)) = lower (anchor m)"
    and "\<forall>j<i. lower (name (W ! j)) \<noteq> lower (anchor m)"
    by blast+
  from h insert_step_found [of m W i]
  show "insert_step W m =
        Inr (take (if position m = ''after'' then i + 1 else i) W @ new_meta m #
             drop (if position m = ''after'' then i + 1 else i) W)"
    by (simp add: list_insert_def)
next
  assume h: "anchor_index L (anchor a) = Some k \<and> position a = ''after'' \<and>
    lower (anchor b) = lower (new_name a) \<and> position b = ''after'' \<and>
    lower (new_name a) \<notin> (\<lambda>c. lower (name c)) ` set L"
  define xs where "xs = take (k + 1) L"
  define zs where "zs = drop (k + 1) L"
  from h anchor_index_Some [of L "anchor a" k] have k: "k < length L"
    by blast
  then have len: "length xs = k + 1"
    by (simp add: xs_def)
  have step1: "insert_step L a = Inr (xs @ new_meta a # zs)"
    using h insert_step_found [of a L k] by (simp add: list_insert_def xs_def zs_def)
  have "set xs \<subseteq> set L"
    unfolding xs_def by (rule set_take_subset)
  with h have "\<forall>c\<in>set xs. lower (name c) \<noteq> lower (anchor b)"
    by (force simp: image_def)
  moreover have "lower (name (new_meta a)) = lower (anchor b)"
    using h by simp
  ultimately have "anchor_index (xs @ new_meta a # zs) (anchor b) = Some (k + 1)"
    using anchor_index_first_match [of xs "anchor b" "new_meta a" zs] len by simp
  with h insert_step_found [of b "xs @ new_meta a # zs" "k + 1"]
  have step2: "insert_step (xs @ new_meta a # zs) b =
      Inr (list_insert (Suc (k + 1)) (new_meta b) (xs @ new_meta a # zs))"
    by simp
  have "list_insert (Suc (k + 1)) (new_meta b) (xs @ new_meta a # zs) =
      xs @ new_meta a # new_meta b # zs"
    using len by (simp add: list_insert_def)
  with step1 step2
  show "insert_new_columns L [a, b] =
        Inr (take (k + 1) L @ new_meta a # new_meta b # drop (k + 1) L)"
    by (simp add: insert_new_columns_def xs_def zs_def)
qed

theorem insert_new_columns_sequential_witness:
  "anchor_index [example_col ''X'', example_col ''Y''] ''x'' = Some 0 \<and>
   insert_new_columns [example_col ''X'', example_col ''Y'']
     [example_request ''A'' ''after'' ''x'', example_request ''B'' ''after'' ''a''] =
     Inr [example_col ''X'', example_col ''A'', example_col ''B'', example_col ''Y''] \<and>
   insert_step [example_col ''X'', example_col ''Y''] (example_request ''A'' ''after'' ''x'') =
     Inr [example_col ''X'', example_col ''A'', example_col ''Y''] \<and>
   insert_new_columns [example_col ''X'', example_col ''Y'']
     ([] @ [example_request ''A'' ''after'' ''x'']) =
     Inr [example_col ''X'', example_col ''A'', example_col ''Y'']"
proof -
  let ?L = "[example_col ''X'', example_col ''Y'']"
  let ?a = "example_request ''A'' ''after'' ''x''"
  let ?b = "example_request ''B'' ''after'' ''a''"
  have i: "anchor_index ?L (anchor ?a) = Some 0"
    by (simp add: example_simps)
  have fresh: "lower (new_name ?a) \<notin> (\<lambda>c. lower (name c)) ` set ?L"
    by (simp add: example_simps)
  have pa: "position ?a = ''after''" and pb: "position ?b = ''after''"
    and ab: "lower (anchor ?b) = lower (new_name ?a)"
    by (simp_all add: example_request_def lower_def lower_char_def)
  note t = insert_new_columns_sequential [of ?L "[]" ?a ?a ?L 0 ?a 0 ?b]
  have c1: "insert_new_columns ?L ([] @ [?a]) =
      (case insert_new_columns ?L [] of Inl e \<Rightarrow> Inl e | Inr W \<Rightarrow> insert_step W ?a)"
    by (rule t [THEN conjunct1])
  have c2: "insert_step ?L ?a =
      Inr (take (if position ?a = ''after'' then 0 + 1 else 0) ?L @ new_meta ?a #
           drop (if position ?a = ''after'' then 0 + 1 else 0) ?L)"
    using t [THEN conjunct2, THEN conjunct1] pa i by blast
  have c3: "insert_new_columns ?L [?a, ?b] =
      Inr (take (0 + 1) ?L @ new_meta ?a # new_meta ?b # drop (0 + 1) ?L)"
    using t [THEN conjunct2, THEN conjunct2] i pa pb ab fresh by blast
  have s: "insert_step ?L ?a = Inr [example_col ''X'', example_col ''A'', example_col ''Y'']"
    by (simp only: c2 pa new_meta_example_request) simp
  have l: "insert_new_columns ?L ([] @ [?a]) =
      Inr [example_col ''X'', example_col ''A'', example_col ''Y'']"
    by (simp only: c1) (simp add: insert_new_columns_def s)
  have e: "insert_new_columns ?L [?a, ?b] =
      Inr [example_col ''X'', example_col ''A'', example_col ''B'', example_col ''Y'']"
    by (simp only: c3 new_meta_example_request) simp
  have i': "anchor_index ?L ''x'' = Some 0"
    using i by (simp add: example_request_def)
  from i' e s l show ?thesis
    by (intro conjI)
qed

text \<open>
  The claim C2 as it is worded fails where the name of the first request is already the
  name of a column: the anchor of the second request is then that column, the first
  match, and not the column inserted just before.
\<close>

theorem insert_new_columns_anchor_first_match:
  "insert_new_columns [example_col ''A'', example_col ''X'']
     [example_request ''A'' ''after'' ''X'', example_request ''B'' ''after'' ''A''] =
     Inr [example_col ''A'', example_col ''B'', example_col ''X'', example_col ''A'']"
  by (simp add: example_simps)

text \<open>
  C3, as amended. \<^verbatim>\<open>insert_new_columns\<close> raises two errors only, for a position that is
  neither \<open>before\<close> nor \<open>after\<close> and for an anchor that is not found. A requested name
  that matches, whatever the case, the name of a column \<open>c\<close> of the working list is no
  error: with a valid position and an anchor that is found the step returns the working
  list with the new descriptor added, so that \<open>c\<close> and the new descriptor are both in it.
\<close>

theorem insert_new_columns_no_duplicate_check:
  "(insert_new_columns L I = Inl e \<longrightarrow>
      e = position_error \<or> (\<exists>n\<in>set I. e = anchor_error (anchor n))) \<and>
   ((position n = ''before'' \<or> position n = ''after'') \<and>
    anchor_index ordered (anchor n) = Some i \<and>
    c \<in> set ordered \<and> lower (name c) = lower (new_name n) \<longrightarrow>
      (\<exists>r. insert_step ordered n = Inr r \<and> length r = Suc (length ordered) \<and>
           mset r = add_mset (new_meta n) (mset ordered) \<and> c \<in> set r \<and> new_meta n \<in> set r))"
proof (intro conjI impI)
  assume "insert_new_columns L I = Inl e"
  then show "e = position_error \<or> (\<exists>n\<in>set I. e = anchor_error (anchor n))"
    unfolding insert_new_columns_def by (rule insert_loop_Inl)
next
  assume h: "(position n = ''before'' \<or> position n = ''after'') \<and>
    anchor_index ordered (anchor n) = Some i \<and>
    c \<in> set ordered \<and> lower (name c) = lower (new_name n)"
  define r where "r = list_insert (if position n = ''after'' then Suc i else i) (new_meta n) ordered"
  from h insert_step_found [of n ordered i] have step: "insert_step ordered n = Inr r"
    by (simp add: r_def)
  have m: "mset r = add_mset (new_meta n) (mset ordered)"
    by (simp only: r_def mset_list_insert)
  have len: "length r = Suc (length ordered)"
    by (simp only: r_def length_list_insert)
  from arg_cong [OF m, of set_mset] have "set r = insert (new_meta n) (set ordered)"
    by simp
  with h have "c \<in> set r" "new_meta n \<in> set r"
    by simp_all
  with step m len
  show "\<exists>r. insert_step ordered n = Inr r \<and> length r = Suc (length ordered) \<and>
           mset r = add_mset (new_meta n) (mset ordered) \<and> c \<in> set r \<and> new_meta n \<in> set r"
    by blast
qed

theorem insert_new_columns_no_duplicate_check_witness:
  "(\<exists>r. insert_step [example_col ''Id'', example_col ''Name'']
          (example_request ''NAME'' ''before'' ''id'') = Inr r \<and>
        length r = 3 \<and> example_col ''Name'' \<in> set r \<and> example_col ''NAME'' \<in> set r) \<and>
   insert_new_columns [example_col ''Id''] [example_request ''B'' ''after'' ''Z''] =
     Inl (anchor_error ''Z'') \<and>
   (anchor_error ''Z'' = position_error \<or>
    (\<exists>n\<in>set [example_request ''B'' ''after'' ''Z'']. anchor_error ''Z'' = anchor_error (anchor n)))"
proof -
  let ?W = "[example_col ''Id'', example_col ''Name'']"
  let ?n = "example_request ''NAME'' ''before'' ''id''"
  have h: "(position ?n = ''before'' \<or> position ?n = ''after'') \<and>
    anchor_index ?W (anchor ?n) = Some 0 \<and>
    example_col ''Name'' \<in> set ?W \<and> lower (name (example_col ''Name'')) = lower (new_name ?n)"
    by (simp add: example_simps)
  have f: "insert_new_columns [example_col ''Id''] [example_request ''B'' ''after'' ''Z''] =
     Inl (anchor_error ''Z'')"
    by (simp add: example_simps)
  note t = insert_new_columns_no_duplicate_check
    [of "[example_col ''Id'']" "[example_request ''B'' ''after'' ''Z'']" "anchor_error ''Z''"
        ?n ?W 0 "example_col ''Name''"]
  from t h have "\<exists>r. insert_step ?W ?n = Inr r \<and> length r = Suc (length ?W) \<and>
      mset r = add_mset (new_meta ?n) (mset ?W) \<and> example_col ''Name'' \<in> set r \<and>
      new_meta ?n \<in> set r"
    by blast
  then have 1: "\<exists>r. insert_step ?W ?n = Inr r \<and> length r = 3 \<and>
      example_col ''Name'' \<in> set r \<and> example_col ''NAME'' \<in> set r"
    by (auto simp: new_meta_example_request)
  from t f have 2: "anchor_error ''Z'' = position_error \<or>
    (\<exists>n\<in>set [example_request ''B'' ''after'' ''Z'']. anchor_error ''Z'' = anchor_error (anchor n))"
    by blast
  from 1 f 2 show ?thesis
    by blast
qed

text \<open>
  The claim C3 as it is worded fails on its own example: the request \<open>A\<close> after \<open>A\<close> on
  the list with the one column \<open>A\<close> returns a list with two columns named \<open>A\<close>.
\<close>

theorem insert_new_columns_duplicate_accepted:
  "insert_new_columns [example_col ''A''] [example_request ''A'' ''after'' ''A''] =
     Inr [example_col ''A'', example_col ''A'']"
  by (simp add: example_simps)

section \<open>Reading the metadata: the empty table\<close>

text \<open>
  C4, as amended. \<^verbatim>\<open>fetch_ordered_metadata\<close> returns one descriptor for each row of the
  catalog query, in the order of the rows and under the names of the rows; when the query
  yields no row (the table does not exist or is not visible) it returns the empty list,
  and it raises no error.
\<close>

theorem fetch_ordered_metadata_one_per_row:
  "length (fetch_ordered_metadata rows) = length rows \<and>
   map name (fetch_ordered_metadata rows) = map column_name rows \<and>
   (fetch_ordered_metadata rows = [] \<longleftrightarrow> rows = [])"
  by (simp add: fetch_ordered_metadata_map row_to_column_def comp_def)

text \<open>
  The claim C4 as it is worded fails: on no rows the function returns the empty list, and
  the rebuild of such a table with no requested column goes on to execute its four
  statements.
\<close>

theorem fetch_ordered_metadata_empty:
  "fetch_ordered_metadata [] = [] \<and>
   fst (rebuild_with_inferred_and_inserted_columns ''dbo'' ''Missing'' [] ''_TmpReorder'' [] []) =
     Inr () \<and>
   length (snd (rebuild_with_inferred_and_inserted_columns ''dbo'' ''Missing'' [] ''_TmpReorder''
     [] [])) = 4"
  by (simp add: fetch_ordered_metadata_def rebuild_with_inferred_and_inserted_columns_def
      insert_new_columns_def select_exprs_of_def Let_def)

section \<open>Column definitions\<close>

text \<open>
  C8, as amended. \<^verbatim>\<open>build_col_def\<close> returns
  \<open>[name] type[ IDENTITY(1,1)][ DEFAULT expr] NULL|NOT NULL\<close>: the identity clause is
  there exactly when \<open>is_identity\<close> is true, the default clause is there exactly when the
  default is set to a string that is not empty, and the last keyword is \<open>NULL\<close> when
  \<open>is_nullable\<close> is true and \<open>NOT NULL\<close> otherwise.
\<close>

theorem build_col_def_shape:
  "build_col_def col =
     ''['' @ name col @ ''] '' @ type col @
     (if is_identity col then '' IDENTITY(1,1)'' else []) @
     (case default col of None \<Rightarrow> [] | Some d \<Rightarrow> if d = [] then [] else '' DEFAULT '' @ d) @
     (if is_nullable col then '' NULL'' else '' NOT NULL'')"
  by (simp add: build_col_def_def truthy_def Let_def split: option.splits)

theorem build_col_def_shape_witness:
  "build_col_def \<lparr>name = ''Id'', type = ''INT'', is_nullable = False, is_identity = True,
      default = None\<rparr> = ''[Id] INT IDENTITY(1,1) NOT NULL'' \<and>
   build_col_def \<lparr>name = ''Qty'', type = ''DECIMAL(18,2)'', is_nullable = True,
      is_identity = False, default = Some ''((0))''\<rparr> = ''[Qty] DECIMAL(18,2) DEFAULT ((0)) NULL''"
  by (simp add: build_col_def_shape)

text \<open>
  The claim C8 as it is worded fails for a default that is set to the empty string: the
  truth test of the source takes it for no default, and no default clause is rendered.
\<close>

theorem build_col_def_empty_default:
  "build_col_def \<lparr>name = ''Note'', type = ''VARCHAR(50)'', is_nullable = True,
      is_identity = False, default = Some ''''\<rparr> = ''[Note] VARCHAR(50) NULL''"
  by (simp add: build_col_def_def truthy_def)

section \<open>The copy batch\<close>

lemma insert_select_not_identity_insert:
  "insert_select ft ftt cols exprs \<noteq> identity_insert_on t1"
  "insert_select ft ftt cols exprs \<noteq> identity_insert_off t2"
  by (simp_all add: insert_select_def identity_insert_on_def identity_insert_off_def Let_def)

text \<open>
  C7. The parts of the copy batch are \<open>SET IDENTITY_INSERT target ON\<close>, the \<open>INSERT\<close>
  and \<open>SET IDENTITY_INSERT target OFF\<close>, in this order, when at least one column of the
  new order is an identity column, and the \<open>INSERT\<close> alone when none is: each of the two
  \<open>SET\<close> statements is among the parts if and only if some column is an identity column.
  The batch that is executed is the parts joined by line breaks.
\<close>

theorem insert_batch_identity_bracketing:
  "insert_batch_parts ft ftt cols exprs =
     (if (\<exists>c\<in>set cols. is_identity c)
      then [identity_insert_on ftt, insert_select ft ftt cols exprs, identity_insert_off ftt]
      else [insert_select ft ftt cols exprs]) \<and>
   (identity_insert_on ftt \<in> set (insert_batch_parts ft ftt cols exprs) \<longleftrightarrow>
      (\<exists>c\<in>set cols. is_identity c)) \<and>
   (identity_insert_off ftt \<in> set (insert_batch_parts ft ftt cols exprs) \<longleftrightarrow>
      (\<exists>c\<in>set cols. is_identity c)) \<and>
   insert_sql ft ftt cols exprs = join newline (insert_batch_parts ft ftt cols exprs)"
proof -
  have parts: "insert_batch_parts ft ftt cols exprs =
     (if (\<exists>c\<in>set cols. is_identity c)
      then [identity_insert_on ftt, insert_select ft ftt cols exprs, identity_insert_off ftt]
      else [insert_select ft ftt cols exprs])"
    by (simp add: insert_batch_parts_def Let_def list_ex_iff)
  have ne: "identity_insert_on ftt \<noteq> insert_select ft ftt cols exprs"
    "identity_insert_off ftt \<noteq> insert_select ft ftt cols exprs"
    using insert_select_not_identity_insert [of ft ftt cols exprs] by (metis+)
  show ?thesis
    by (simp add: parts ne insert_sql_def)
qed

theorem insert_batch_identity_bracketing_witness:
  "insert_batch_parts ''[dbo].[T]'' ''[dbo].[T_TmpReorder]''
     [(example_col ''Id'')\<lparr>is_identity := True\<rparr>, example_col ''Name''] [''[Id]'', ''[Name]''] =
     [''SET IDENTITY_INSERT [dbo].[T_TmpReorder] ON;'',
      insert_select ''[dbo].[T]'' ''[dbo].[T_TmpReorder]''
        [(example_col ''Id'')\<lparr>is_identity := True\<rparr>, example_col ''Name''] [''[Id]'', ''[Name]''],
      ''SET IDENTITY_INSERT [dbo].[T_TmpReorder] OFF;''] \<and>
   insert_batch_parts ''[dbo].[T]'' ''[dbo].[T_TmpReorder]''
     [example_col ''Id'', example_col ''Name''] [''[Id]'', ''[Name]''] =
     [insert_select ''[dbo].[T]'' ''[dbo].[T_TmpReorder]''
        [example_col ''Id'', example_col ''Name''] [''[Id]'', ''[Name]'']]"
proof -
  note t1 = insert_batch_identity_bracketing [of "''[dbo].[T]''" "''[dbo].[T_TmpReorder]''"
    "[(example_col ''Id'')\<lparr>is_identity := True\<rparr>, example_col ''Name'']" "[''[Id]'', ''[Name]'']",
    THEN conjunct1]
  note t2 = insert_batch_identity_bracketing [of "''[dbo].[T]''" "''[dbo].[T_TmpReorder]''"
    "[example_col ''Id'', example_col ''Name'']" "[''[Id]'', ''[Name]'']", THEN conjunct1]
  show ?thesis
    by (simp only: t1 t2)
      (simp add: example_col_def identity_insert_on_def identity_insert_off_def)
qed

section \<open>Planning errors and the session\<close>

text \<open>
  C9. When the planning raises an error (the position of a request is neither \<open>before\<close>
  nor \<open>after\<close>, or its anchor is not found; the function raises no other error), the
  rebuild raises this error and the statements executed by the session are those executed
  before the call: no \<open>CREATE\<close>, \<open>INSERT\<close>, \<open>DROP\<close> or rename is executed.
\<close>

theorem rebuild_planning_error_executes_nothing:
  "insert_new_columns (fetch_ordered_metadata rows) new_columns = Inl e \<Longrightarrow>
     rebuild_with_inferred_and_inserted_columns schema table new_columns tmp_suffix rows executed =
       (Inl e, executed)"
  by (simp add: rebuild_with_inferred_and_inserted_columns_def Let_def)

theorem rebuild_planning_error_executes_nothing_witness:
  "insert_new_columns (fetch_ordered_metadata [example_row ''A''])
     [example_request ''B'' ''before'' ''Z''] = Inl (anchor_error ''Z'') \<and>
   rebuild_with_inferred_and_inserted_columns ''dbo'' ''T'' [example_request ''B'' ''before'' ''Z'']
     ''_TmpReorder'' [example_row ''A''] [''SELECT 1;''] =
     (Inl (anchor_error ''Z''), [''SELECT 1;'']) \<and>
   insert_new_columns (fetch_ordered_metadata [example_row ''A''])
     [example_request ''B'' ''middle'' ''A''] = Inl position_error \<and>
   rebuild_with_inferred_and_inserted_columns ''dbo'' ''T'' [example_request ''B'' ''middle'' ''A'']
     ''_TmpReorder'' [example_row ''A''] [] = (Inl position_error, [])"
proof -
  have a: "insert_new_columns (fetch_ordered_metadata [example_row ''A''])
     [example_request ''B'' ''before'' ''Z''] = Inl (anchor_error ''Z'')"
    by (simp add: fetch_ordered_metadata_map row_to_column_def example_row_def example_simps)
  have p: "insert_new_columns (fetch_ordered_metadata [example_row ''A''])
     [example_request ''B'' ''middle'' ''A''] = Inl position_error"
    by (simp add: fetch_ordered_metadata_map row_to_column_def example_row_def example_simps)
  from a p rebuild_planning_error_executes_nothing [OF a] rebuild_planning_error_executes_nothing [OF p]
  show ?thesis
    by (intro conjI)
qed

section \<open>The select list\<close>

lemma select_loop_all:
  "\<forall>c\<in>set cs. select_expr ex nc c = Inr (f c) \<Longrightarrow>
     select_loop ex nc acc cs = Inr (acc @ map f cs)"
  by (induction cs arbitrary: acc) simp_all

lemma select_expr_existing:
  "c \<in> set ex \<Longrightarrow> select_expr ex nc c = Inr (''['' @ name c @ '']'')"
  by (simp add: select_expr_def Let_def)

lemma find_distinct_key:
  "distinct (map g xs) \<Longrightarrow> x \<in> set xs \<Longrightarrow> find (\<lambda>y. g y = g x) xs = Some x"
  by (induction xs) auto

lemma select_expr_inserted:
  assumes "distinct (map (\<lambda>c. lower (name c)) ex @ map (\<lambda>n. lower (new_name n)) nc)"
    and "n \<in> set nc"
  shows "select_expr ex nc (new_meta n) = Inr (inserted_expr n)"
proof -
  from assms have "lower (new_name n) \<notin> (\<lambda>c. lower (name c)) ` set ex"
    by auto
  moreover from assms have "find (\<lambda>m. lower (new_name m) = lower (new_name n)) nc = Some n"
    using find_distinct_key [of "\<lambda>n. lower (new_name n)" nc n] by simp
  ultimately show ?thesis
    by (simp add: select_expr_def inserted_expr_def Let_def split: option.splits)
qed

text \<open>
  C6, as amended. Let the new order be the result of \<^verbatim>\<open>insert_new_columns\<close> on existing
  columns and requests whose names are pairwise distinct whatever the case. Then the
  select list has one expression for each column of the new order; each column is an
  existing column or the descriptor of a request; the expression of an existing column is
  its name in brackets; the expression of the descriptor of a request is the default of
  the request with the column name as alias when the request has a default, and \<open>NULL\<close>
  with that alias when it has none.
\<close>

theorem select_exprs_by_origin:
  assumes "insert_new_columns existing new_columns = Inr planned"
    and "distinct (map (\<lambda>c. lower (name c)) existing @ map (\<lambda>n. lower (new_name n)) new_columns)"
  shows "\<exists>exprs. select_exprs_of existing new_columns planned = Inr exprs \<and>
           length exprs = length planned \<and>
           (\<forall>i<length planned.
              (planned ! i \<in> set existing \<or> planned ! i \<in> new_meta ` set new_columns) \<and>
              (planned ! i \<in> set existing \<longrightarrow> exprs ! i = ''['' @ name (planned ! i) @ '']'') \<and>
              (\<forall>n\<in>set new_columns. planned ! i = new_meta n \<longrightarrow> exprs ! i = inserted_expr n))"
proof -
  define f where "f c = (case select_expr existing new_columns c of Inl e \<Rightarrow> [] | Inr x \<Rightarrow> x)" for c
  have f_existing: "f c = ''['' @ name c @ '']''" if "c \<in> set existing" for c
    using that by (simp add: f_def select_expr_existing)
  have f_inserted: "f (new_meta n) = inserted_expr n" if "n \<in> set new_columns" for n
    using that by (simp add: f_def select_expr_inserted [OF assms(2)])
  have "mset planned = mset existing + mset (map new_meta new_columns)"
    using assms(1) unfolding insert_new_columns_def by (rule insert_loop_mset)
  from arg_cong [OF this, of set_mset]
  have origin: "set planned = set existing \<union> new_meta ` set new_columns"
    by simp
  have "select_expr existing new_columns c = Inr (f c)" if "c \<in> set planned" for c
  proof -
    from that origin consider "c \<in> set existing" | n where "n \<in> set new_columns" "c = new_meta n"
      by blast
    then show ?thesis
    proof cases
      case 1
      then show ?thesis
        by (simp add: f_existing select_expr_existing)
    next
      case 2
      then show ?thesis
        by (simp add: f_inserted select_expr_inserted [OF assms(2)])
    qed
  qed
  then have exprs: "select_exprs_of existing new_columns planned = Inr (map f planned)"
    using select_loop_all [of planned existing new_columns f "[]"]
    by (simp add: select_exprs_of_def)
  have "(planned ! i \<in> set existing \<or> planned ! i \<in> new_meta ` set new_columns) \<and>
      (planned ! i \<in> set existing \<longrightarrow> map f planned ! i = ''['' @ name (planned ! i) @ '']'') \<and>
      (\<forall>n\<in>set new_columns. planned ! i = new_meta n \<longrightarrow> map f planned ! i = inserted_expr n)"
    if "i < length planned" for i
  proof -
    from that have "planned ! i \<in> set planned"
      by simp
    with origin have "planned ! i \<in> set existing \<or> planned ! i \<in> new_meta ` set new_columns"
      by blast
    with that show ?thesis
      by (auto simp: f_existing f_inserted)
  qed
  with exprs show ?thesis
    by auto
qed


theorem select_exprs_by_origin_witness:
  "insert_new_columns [(example_col ''Id'')\<lparr>is_identity := True\<rparr>, example_col ''Name'']
     [(example_request ''CreatedAt'' ''after'' ''Id'')\<lparr>new_default := Some ''SYSUTCDATETIME()''\<rparr>] =
     Inr [(example_col ''Id'')\<lparr>is_identity := True\<rparr>,
          (example_col ''CreatedAt'')\<lparr>default := Some ''SYSUTCDATETIME()''\<rparr>,
          example_col ''Name''] \<and>
   (\<exists>exprs. select_exprs_of [(example_col ''Id'')\<lparr>is_identity := True\<rparr>, example_col ''Name'']
       [(example_request ''CreatedAt'' ''after'' ''Id'')\<lparr>new_default := Some ''SYSUTCDATETIME()''\<rparr>]
       [(example_col ''Id'')\<lparr>is_identity := True\<rparr>,
        (example_col ''CreatedAt'')\<lparr>default := Some ''SYSUTCDATETIME()''\<rparr>,
        example_col ''Name''] = Inr exprs \<and>
      exprs ! 0 = ''[Id]'' \<and> exprs ! 1 = ''SYSUTCDATETIME() AS [CreatedAt]'' \<and>
      exprs ! 2 = ''[Name]'')"
proof -
  let ?id = "(example_col ''Id'')\<lparr>is_identity := True\<rparr>"
  let ?nm = "example_col ''Name''"
  let ?rq = "(example_request ''CreatedAt'' ''after'' ''Id'')\<lparr>new_default := Some ''SYSUTCDATETIME()''\<rparr>"
  let ?cr = "(example_col ''CreatedAt'')\<lparr>default := Some ''SYSUTCDATETIME()''\<rparr>"
  have meta: "new_meta ?rq = ?cr"
    by (simp add: new_meta_def example_request_def example_col_def)
  have p: "insert_new_columns [?id, ?nm] [?rq] = Inr [?id, ?cr, ?nm]"
    by (simp add: example_simps)
  have d: "distinct (map (\<lambda>c. lower (name c)) [?id, ?nm] @ map (\<lambda>n. lower (new_name n)) [?rq])"
    by (simp add: example_simps)
  from select_exprs_by_origin [OF p d] obtain exprs where
    e: "select_exprs_of [?id, ?nm] [?rq] [?id, ?cr, ?nm] = Inr exprs"
    and all: "\<forall>i<length [?id, ?cr, ?nm].
        ([?id, ?cr, ?nm] ! i \<in> set [?id, ?nm] \<longrightarrow> exprs ! i = ''['' @ name ([?id, ?cr, ?nm] ! i) @ '']'') \<and>
        (\<forall>n\<in>set [?rq]. [?id, ?cr, ?nm] ! i = new_meta n \<longrightarrow> exprs ! i = inserted_expr n)"
    by blast
  from all [rule_format, of 0] have e0: "exprs ! 0 = ''[Id]''"
    by (simp add: example_col_def)
  from all [rule_format, of 2] have e2: "exprs ! 2 = ''[Name]''"
    by (simp add: example_col_def)
  from all [rule_format, of 1] meta have "exprs ! 1 = inserted_expr ?rq"
    by simp
  then have e1: "exprs ! 1 = ''SYSUTCDATETIME() AS [CreatedAt]''"
    by (simp add: inserted_expr_def example_request_def)
  from p e e0 e1 e2 show ?thesis
    by blast
qed

text \<open>
  The claim C6 as it is worded fails where the name of a request is the name of an existing
  column: the source takes a column for existing by its name, so the inserted column is
  selected from the source table and its default is not used.
\<close>

theorem select_exprs_inserted_taken_for_existing:
  "insert_new_columns [example_col ''A'']
     [(example_request ''A'' ''after'' ''A'')\<lparr>new_default := Some ''0''\<rparr>] =
     Inr [example_col ''A'', (example_col ''A'')\<lparr>default := Some ''0''\<rparr>] \<and>
   select_exprs_of [example_col ''A'']
     [(example_request ''A'' ''after'' ''A'')\<lparr>new_default := Some ''0''\<rparr>]
     [example_col ''A'', (example_col ''A'')\<lparr>default := Some ''0''\<rparr>] = Inr [''[A]'', ''[A]''] \<and>
   inserted_expr ((example_request ''A'' ''after'' ''A'')\<lparr>new_default := Some ''0''\<rparr>) =
     ''0 AS [A]''"
  by (simp add: example_simps select_exprs_of_def select_expr_def inserted_expr_def)

section \<open>The argument list is not changed\<close>

lemma insert_loop_st_frame:
  "a \<noteq> ordered \<Longrightarrow> list_at (snd (insert_loop_st ordered ns s)) a = list_at s a"
  by (induction ns arbitrary: s) (auto simp: Let_def store_insert_def split: option.splits)

lemma insert_loop_st_next_free:
  "next_free (snd (insert_loop_st ordered ns s)) = next_free s"
  by (induction ns arbitrary: s) (auto simp: Let_def store_insert_def split: option.splits)

lemma insert_loop_st_result:
  "(case fst (insert_loop_st ordered ns s) of
      Inl e \<Rightarrow> insert_loop (list_at s ordered) ns = Inl e
    | Inr r \<Rightarrow> r = ordered \<and>
        insert_loop (list_at s ordered) ns = Inr (list_at (snd (insert_loop_st ordered ns s)) ordered))"
proof (induction ns arbitrary: s)
  case Nil
  then show ?case by simp
next
  case (Cons n ns)
  show ?case
  proof (cases "position n = ''before'' \<or> position n = ''after''")
    case False
    then show ?thesis
      by (simp add: insert_step_def Let_def)
  next
    case pos: True
    show ?thesis
    proof (cases "anchor_index (list_at s ordered) (anchor n)")
      case None
      with pos show ?thesis
        by (auto simp: insert_step_def Let_def)
    next
      case (Some idx)
      define k where "k = (if position n = ''after'' then idx + 1 else idx)"
      define s' where "s' = store_insert ordered k (new_meta n) s"
      have step: "insert_step (list_at s ordered) n = Inr (list_at s' ordered)"
        using pos Some by (auto simp: insert_step_def Let_def s'_def k_def store_insert_def)
      have st: "insert_loop_st ordered (n # ns) s = insert_loop_st ordered ns s'"
        using pos Some by (auto simp: Let_def s'_def k_def)
      have lp: "insert_loop (list_at s ordered) (n # ns) = insert_loop (list_at s' ordered) ns"
        using step by simp
      show ?thesis
        unfolding st lp by (rule Cons.IH)
    qed
  qed
qed

text \<open>
  C10. For a store in which the address of \<^verbatim>\<open>existing_cols\<close> is allocated, the call
  leaves the list at that address, and the list at every other allocated address, as it
  was, whether it returns or raises: the insertions are made into a copy, a new list
  object. When the call returns, the result is that new object and its contents are the
  new order; when it raises, the error is the one of the planning.
\<close>

theorem insert_new_columns_keeps_argument:
  assumes "existing_cols < next_free s"
  shows "list_at (snd (insert_new_columns_st existing_cols new_columns s)) existing_cols =
           list_at s existing_cols \<and>
         (\<forall>a<next_free s. list_at (snd (insert_new_columns_st existing_cols new_columns s)) a =
            list_at s a) \<and>
         (case fst (insert_new_columns_st existing_cols new_columns s) of
            Inl e \<Rightarrow> insert_new_columns (list_at s existing_cols) new_columns = Inl e
          | Inr r \<Rightarrow> r \<noteq> existing_cols \<and>
              insert_new_columns (list_at s existing_cols) new_columns =
                Inr (list_at (snd (insert_new_columns_st existing_cols new_columns s)) r))"
proof -
  define ordered where "ordered = next_free s"
  define s' where
    "s' = s\<lparr>list_at := (list_at s)(ordered := list_at s existing_cols), next_free := Suc ordered\<rparr>"
  have call: "insert_new_columns_st existing_cols new_columns s = insert_loop_st ordered new_columns s'"
    by (simp add: insert_new_columns_st_def list_copy_def ordered_def s'_def)
  have frame: "list_at (snd (insert_loop_st ordered new_columns s')) a = list_at s a"
    if "a < next_free s" for a
  proof -
    from that have "a \<noteq> ordered"
      by (simp add: ordered_def)
    then show ?thesis
      by (simp add: insert_loop_st_frame s'_def)
  qed
  have copy: "list_at s' ordered = list_at s existing_cols"
    by (simp add: s'_def)
  from assms have ne: "ordered \<noteq> existing_cols"
    by (simp add: ordered_def)
  from insert_loop_st_result [where ordered = ordered and ns = new_columns and s = s'] copy ne
  have res: "(case fst (insert_loop_st ordered new_columns s') of
      Inl e \<Rightarrow> insert_new_columns (list_at s existing_cols) new_columns = Inl e
    | Inr r \<Rightarrow> r \<noteq> existing_cols \<and>
        insert_new_columns (list_at s existing_cols) new_columns =
          Inr (list_at (snd (insert_loop_st ordered new_columns s')) r))"
    by (auto simp: insert_new_columns_def split: sum.splits)
  from frame [OF assms] frame res show ?thesis
    by (simp only: call) blast
qed


theorem insert_new_columns_keeps_argument_witness:
  "list_at (snd (insert_new_columns_st 0 [example_request ''A'' ''after'' ''x''] example_store)) 0 =
     [example_col ''X'', example_col ''Y''] \<and>
   fst (insert_new_columns_st 0 [example_request ''A'' ''after'' ''x''] example_store) = Inr 1 \<and>
   list_at (snd (insert_new_columns_st 0 [example_request ''A'' ''after'' ''x''] example_store)) 1 =
     [example_col ''X'', example_col ''A'', example_col ''Y''] \<and>
   fst (insert_new_columns_st 0
     [example_request ''A'' ''after'' ''x'', example_request ''B'' ''after'' ''Z''] example_store) =
     Inl (anchor_error ''Z'') \<and>
   list_at (snd (insert_new_columns_st 0
     [example_request ''A'' ''after'' ''x'', example_request ''B'' ''after'' ''Z''] example_store)) 0 =
     [example_col ''X'', example_col ''Y'']"
proof -
  have alloc: "0 < next_free example_store"
    by (simp add: example_store_def)
  have arg: "list_at example_store 0 = [example_col ''X'', example_col ''Y'']"
    by (simp add: example_store_def)
  note ok = insert_new_columns_keeps_argument
    [OF alloc, of "[example_request ''A'' ''after'' ''x'']", THEN conjunct1]
  note raised = insert_new_columns_keeps_argument
    [OF alloc, of "[example_request ''A'' ''after'' ''x'', example_request ''B'' ''after'' ''Z'']",
     THEN conjunct1]
  have r1: "insert_new_columns_st 0 [example_request ''A'' ''after'' ''x''] example_store =
      (Inr 1, \<lparr>list_at = (\<lambda>a. [])(0 := [example_col ''X'', example_col ''Y''],
                 1 := [example_col ''X'', example_col ''A'', example_col ''Y'']), next_free = 2\<rparr>)"
    by (simp add: insert_new_columns_st_def list_copy_def store_insert_def example_store_def
        example_simps)
  have r2: "fst (insert_new_columns_st 0
      [example_request ''A'' ''after'' ''x'', example_request ''B'' ''after'' ''Z''] example_store) =
      Inl (anchor_error ''Z'')"
    by (simp add: insert_new_columns_st_def list_copy_def store_insert_def example_store_def
        example_simps)
  from ok raised arg r2 show ?thesis
    by (simp add: r1)
qed


end
